theory Spec2Isabelle
  imports Complex_Main "HOL-Library.Multiset"
begin

section \<open>Data model\<close>

text \<open>
  The dashboard component exists in two revisions inside
  \<^verbatim>\<open>src/components/atoms/DashboardTable.tsx\<close>: the first one (lines 1--368, with
  \<^verbatim>\<open>formatHoursAndMinutes\<close> and \<^verbatim>\<open>escapeCsvField\<close>) and the later one (lines 368--683,
  with \<^verbatim>\<open>formatDuration\<close>, \<^verbatim>\<open>escape\<close>, editing and deleting). Both are embedded. A name
  of the later revision that clashes with one of the first carries the suffix \<open>2\<close>.

  The interface \<^verbatim>\<open>TimeLog\<close> declares its text fields as \<^verbatim>\<open>string\<close>, but the rows come
  from the store unchecked and the code tests them for \<^verbatim>\<open>null\<close> and \<^verbatim>\<open>undefined\<close>;
  a field is therefore one of the three runtime values below.
\<close>

datatype jsval = JNull | JUndefined | JStr string

record TimeLog =
  id_log :: int
  task_name :: jsval
  start_time :: jsval
  end_time :: jsval
  notes_log :: jsval

text \<open>\<^verbatim>\<open>!v\<close> on such a value: \<^verbatim>\<open>null\<close>, \<^verbatim>\<open>undefined\<close> and the empty string are falsy.\<close>

fun falsy :: "jsval \<Rightarrow> bool" where
  "falsy JNull = True"
| "falsy JUndefined = True"
| "falsy (JStr s) = (s = [])"

section \<open>Numbers\<close>

text \<open>
  A JavaScript number is an IEEE double: a value \<open>m * 2^x\<close> with \<open>|m| < 2^53\<close>, or
  \<^verbatim>\<open>NaN\<close>. A double is modelled by the rational it denotes, \<open>None\<close> standing for
  \<^verbatim>\<open>NaN\<close>. The result of a subtraction or a division is the double nearest to the exact
  result, a tie going to the one with the even significand: \<open>rnd\<close>. All values here are
  zero or of magnitude between \<open>10^-7\<close> and \<open>2 * 10^16\<close> (time values are integers of at
  most \<open>8.64 * 10^15\<close> milliseconds), so neither infinities nor subnormal numbers arise,
  and the divisors of \<open>ddiv\<close> and \<open>dmod\<close> are the nonzero literals of the source.

  What leaves \<^verbatim>\<open>Math.floor\<close> is an integer or \<^verbatim>\<open>NaN\<close>: the type \<open>number\<close>.
\<close>

type_synonym double = "rat option"

datatype number = NaN | Num int

text \<open>The integer nearest to a rational, a tie going to the even one.\<close>

definition rhe :: "rat \<Rightarrow> int" where
  "rhe q =
    (let f = \<lfloor>q\<rfloor>; r = q - of_int f
     in if r < 1 / 2 then f else if 1 / 2 < r then f + 1 else if even f then f else f + 1)"

text \<open>
  The spacing of the doubles around a positive rational \<open>q\<close>: the power of two \<open>u\<close> with
  \<open>2^52 \<le> q / u < 2^53\<close>, found by halving a large \<open>q\<close> and doubling a small one.
\<close>

function ulp_up :: "rat \<Rightarrow> rat" where
  "ulp_up q = (if q < 2 ^ 53 then 1 else 2 * ulp_up (q / 2))"
  by pat_completeness auto
termination
proof (relation "measure (\<lambda>q. nat \<lfloor>q\<rfloor>)")
  show "wf (measure (\<lambda>q :: rat. nat \<lfloor>q\<rfloor>))" by simp
next
  fix q :: rat
  assume "\<not> q < 2 ^ 53"
  then have q: "2 \<le> q" by simp
  then have "q / 2 \<le> q - 1" by simp
  then have "\<lfloor>q / 2\<rfloor> \<le> \<lfloor>q - 1\<rfloor>" by (rule floor_mono)
  then have "\<lfloor>q / 2\<rfloor> < \<lfloor>q\<rfloor>" by simp
  moreover from q have "0 < \<lfloor>q\<rfloor>" by simp
  ultimately show "(q / 2, q) \<in> measure (\<lambda>q. nat \<lfloor>q\<rfloor>)" by simp
qed

function ulp_down :: "rat \<Rightarrow> rat" where
  "ulp_down q = (if q \<le> 0 \<or> 2 ^ 52 \<le> q then 1 else ulp_down (2 * q) / 2)"
  by pat_completeness auto
termination
proof (relation "measure (\<lambda>q. nat \<lceil>2 ^ 52 / q\<rceil>)")
  show "wf (measure (\<lambda>q :: rat. nat \<lceil>2 ^ 52 / q\<rceil>))" by simp
next
  fix q :: rat
  assume "\<not> (q \<le> 0 \<or> 2 ^ 52 \<le> q)"
  then have pos: "0 < q" and small: "q < 2 ^ 52" by simp_all
  define x where "x = 2 ^ 52 / q"
  from pos small have x1: "1 < x" by (simp add: x_def)
  then have c2: "2 \<le> \<lceil>x\<rceil>" by linarith
  have "x \<le> of_int \<lceil>x\<rceil>" by simp
  moreover from c2 have "(2 :: rat) \<le> of_int \<lceil>x\<rceil>" by linarith
  ultimately have "x / 2 \<le> of_int \<lceil>x\<rceil> - 1" by linarith
  then have "x / 2 \<le> of_int (\<lceil>x\<rceil> - 1)" by simp
  then have "\<lceil>x / 2\<rceil> \<le> \<lceil>x\<rceil> - 1" by (simp only: ceiling_le_iff)
  with c2 have lt: "nat \<lceil>x / 2\<rceil> < nat \<lceil>x\<rceil>" by linarith
  have e: "2 ^ 52 / (2 * q) = x / 2" by (simp add: x_def)
  from lt show "(2 * q, q) \<in> measure (\<lambda>q. nat \<lceil>2 ^ 52 / q\<rceil>)"
    by (simp only: in_measure e x_def [symmetric])
qed

declare ulp_up.simps [simp del] ulp_down.simps [simp del]

definition ulp :: "rat \<Rightarrow> rat" where
  "ulp q = (if 2 ^ 52 \<le> q then ulp_up q else ulp_down q)"

text \<open>Rounding to the nearest double.\<close>

definition rnd :: "rat \<Rightarrow> rat" where
  "rnd q =
    (if q = 0 then 0
     else if 0 < q then ulp q * of_int (rhe (q / ulp q))
     else - (ulp (- q) * of_int (rhe (- q / ulp (- q)))))"

definition isNaN :: "double \<Rightarrow> bool" where
  "isNaN x = (x = None)"

definition dsub :: "double \<Rightarrow> double \<Rightarrow> double" where
  "dsub x y = (case x of None \<Rightarrow> None
     | Some a \<Rightarrow> (case y of None \<Rightarrow> None | Some b \<Rightarrow> Some (rnd (a - b))))"

text \<open>\<^verbatim>\<open>x < 0\<close>: a comparison with \<^verbatim>\<open>NaN\<close> is false.\<close>

definition dneg :: "double \<Rightarrow> bool" where
  "dneg x = (case x of None \<Rightarrow> False | Some a \<Rightarrow> a < 0)"

definition ddiv :: "double \<Rightarrow> rat \<Rightarrow> double" where
  "ddiv x k = (case x of None \<Rightarrow> None | Some a \<Rightarrow> Some (rnd (a / k)))"

text \<open>
  \<^verbatim>\<open>x % k\<close>: the remainder has the sign of the dividend (the quotient is truncated). The
  remainder of two doubles is a double: nothing is rounded.
\<close>

definition trunc :: "rat \<Rightarrow> int" where
  "trunc q = (if 0 \<le> q then \<lfloor>q\<rfloor> else \<lceil>q\<rceil>)"

definition dmod :: "double \<Rightarrow> rat \<Rightarrow> double" where
  "dmod x k = (case x of None \<Rightarrow> None | Some a \<Rightarrow> Some (a - k * of_int (trunc (a / k))))"

definition Math_floor :: "double \<Rightarrow> number" where
  "Math_floor x = (case x of None \<Rightarrow> NaN | Some a \<Rightarrow> Num \<lfloor>a\<rfloor>)"


section \<open>Duration calculator\<close>

text \<open>
  \<^verbatim>\<open>new Date(v).getTime()\<close>. How a string is read as a date is the browser's business:
  \<open>parse\<close> is a parameter, giving the time value in milliseconds, or \<open>None\<close> for an
  invalid date. A date holds a time value of at most \<open>8.64 * 10^15\<close> milliseconds on either
  side of the epoch and is invalid beyond (\<open>time_clip\<close>). \<^verbatim>\<open>new Date(null)\<close> is the epoch
  and \<^verbatim>\<open>new Date(undefined)\<close> is invalid.
\<close>

definition time_clip :: "int \<Rightarrow> double" where
  "time_clip t = (if \<bar>t\<bar> \<le> 8640000000000000 then Some (of_int t) else None)"

fun getTime :: "(string \<Rightarrow> int option) \<Rightarrow> jsval \<Rightarrow> double" where
  "getTime parse (JStr s) = (case parse s of None \<Rightarrow> None | Some t \<Rightarrow> time_clip t)"
| "getTime parse JNull = Some 0"
| "getTime parse JUndefined = None"

text \<open>First revision, lines 36--52.\<close>

definition calculateHoursWorked ::
  "(string \<Rightarrow> int option) \<Rightarrow> jsval \<Rightarrow> jsval \<Rightarrow> number \<times> number" where
  "calculateHoursWorked parse startTime endTime =
    (if falsy startTime \<or> falsy endTime then (Num 0, Num 0)
     else
       let start = getTime parse startTime;
           end = getTime parse endTime
       in if isNaN start \<or> isNaN end then (Num 0, Num 0)
          else
            let diffMs = dsub end start
            in if dneg diffMs then (Num 0, Num 0)
               else
                 let minutes = Math_floor (dmod (ddiv (ddiv diffMs 1000) 60) 60);
                     hours = Math_floor (ddiv (ddiv (ddiv diffMs 1000) 60) 60)
                 in (hours, minutes))"

text \<open>Later revision, lines 398--402: no \<^verbatim>\<open>isNaN\<close> test.\<close>

definition calculateHoursWorked2 ::
  "(string \<Rightarrow> int option) \<Rightarrow> jsval \<Rightarrow> jsval \<Rightarrow> number \<times> number" where
  "calculateHoursWorked2 parse startTime endTime =
    (if falsy startTime \<or> falsy endTime then (Num 0, Num 0)
     else
       let diffMs = dsub (getTime parse endTime) (getTime parse startTime)
       in if dneg diffMs then (Num 0, Num 0)
          else (Math_floor (ddiv diffMs 3600000), Math_floor (dmod (ddiv diffMs 60000) 60)))"

text \<open>
  A table standing for \<^verbatim>\<open>Date\<close> on the timestamps of the worked examples (read as UTC),
  with the earliest date there is and a date of the year 13659; every other string is an
  invalid date.
\<close>

definition sample_parse :: "string \<Rightarrow> int option" where
  "sample_parse s =
    (if s = ''2024-01-01T09:00'' then Some 1704099600000
     else if s = ''2024-01-01T11:30'' then Some 1704108600000
     else if s = ''2024-01-02T08:00'' then Some 1704182400000
     else if s = ''2024-01-02T08:45'' then Some 1704185100000
     else if s = ''2024-01-02T08:47:05'' then Some 1704185225000
     else if s = ''-271821-04-20T00:00:00.000Z'' then Some (- 8640000000000000)
     else if s = ''+013659-08-01T00:59:59.999Z'' then Some 368887568399999
     else None)"

section \<open>Aggregate totals\<close>




definition num_pos :: "number \<Rightarrow> bool" where
  "num_pos x = (case x of NaN \<Rightarrow> False | Num a \<Rightarrow> 0 < a)"





section \<open>Formatter\<close>

text \<open>
  The decimal digits of a natural number, and \<^verbatim>\<open>String(n)\<close> of an integer or \<^verbatim>\<open>NaN\<close>.
  \<open>toStr\<close> is the conversion for integers of magnitude below \<open>10^21\<close>, which print as
  their decimal digits. From \<open>10^21\<close> on the code prints an exponent (\<open>1e+21\<close>), which
  \<open>toStr\<close> does not model: what is proved about the digits of a number carries the bound.
  (A duration has at most \<open>4.8 * 10^9\<close> hours.)
\<close>

fun showNat :: "nat \<Rightarrow> string" where
  "showNat n =
    (if n < 10 then [''0123456789'' ! n]
     else showNat (n div 10) @ [''0123456789'' ! (n mod 10)])"

declare showNat.simps [simp del]

definition toStr :: "number \<Rightarrow> string" where
  "toStr x = (case x of NaN \<Rightarrow> ''NaN''
     | Num i \<Rightarrow> if i < 0 then CHR ''-'' # showNat (nat (- i)) else showNat (nat i))"

text \<open>The number that a string of decimal digits denotes.\<close>

definition decimal_value :: "string \<Rightarrow> nat" where
  "decimal_value s = foldl (\<lambda>acc c. 10 * acc + (of_char c - 48)) 0 s"

text \<open>First revision, lines 54--59.\<close>

definition formatHoursAndMinutes :: "number \<Rightarrow> number \<Rightarrow> string" where
  "formatHoursAndMinutes hours minutes =
    (if hours = Num 0 \<and> minutes = Num 0 then ''0h 0m''
     else if hours = Num 0 then toStr minutes @ ''m''
     else if minutes = Num 0 then toStr hours @ ''h''
     else toStr hours @ ''h '' @ toStr minutes @ ''m'')"

text \<open>Later revision, lines 404--407.\<close>

definition formatDuration :: "number \<Rightarrow> number \<Rightarrow> string" where
  "formatDuration h m =
    (if h = Num 0 \<and> m = Num 0 then ''0m''
     else (if num_pos h then toStr h @ ''h '' else []) @ toStr m @ ''m'')"

text \<open>
  \<^verbatim>\<open>formatDateTime\<close>: empty for a falsy value; otherwise the browser's rendering of the
  date (\<^verbatim>\<open>toUTCString\<close> in the first revision, \<^verbatim>\<open>toLocaleString\<close> in the later one),
  the parameter \<open>fmt\<close>.
\<close>

definition formatDateTime :: "(string \<Rightarrow> string) \<Rightarrow> jsval \<Rightarrow> string" where
  "formatDateTime fmt dt =
    (if falsy dt then [] else (case dt of JStr s \<Rightarrow> fmt s | _ \<Rightarrow> []))"

section \<open>CSV export\<close>

abbreviation dquote :: char where "dquote \<equiv> CHR 0x22"
abbreviation newline :: char where "newline \<equiv> CHR 0x0A"
abbreviation creturn :: char where "creturn \<equiv> CHR 0x0D"
abbreviation comma :: char where "comma \<equiv> CHR '',''"

text \<open>
  \<^verbatim>\<open>String(v)\<close>, \<^verbatim>\<open>s.includes(c)\<close>, the global replacement of each double quote by two,
  and \<^verbatim>\<open>xs.join(sep)\<close>.
\<close>

definition String_of :: "jsval \<Rightarrow> string" where
  "String_of v = (case v of JNull \<Rightarrow> ''null'' | JUndefined \<Rightarrow> ''undefined'' | JStr s \<Rightarrow> s)"

definition str_includes :: "string \<Rightarrow> char \<Rightarrow> bool" where
  "str_includes s c = (c \<in> set s)"

definition replace_quotes :: "string \<Rightarrow> string" where
  "replace_quotes s = concat (map (\<lambda>c. if c = dquote then [dquote, dquote] else [c]) s)"

fun join :: "string \<Rightarrow> string list \<Rightarrow> string" where
  "join sep [] = []"
| "join sep [x] = x"
| "join sep (x # y # ys) = x @ sep @ join sep (y # ys)"

text \<open>First revision, lines 112--121.\<close>

definition escapeCsvField :: "jsval \<Rightarrow> string" where
  "escapeCsvField field =
    (if field = JNull \<or> field = JUndefined then []
     else
       let strField = String_of field
       in if str_includes strField comma \<or> str_includes strField dquote
             \<or> str_includes strField newline \<or> str_includes strField creturn
          then [dquote] @ replace_quotes strField @ [dquote]
          else strField)"

text \<open>Later revision, line 432: \<^verbatim>\<open>String(txt || '')\<close>, always quoted.\<close>

definition escape :: "jsval \<Rightarrow> string" where
  "escape txt =
    [dquote] @ replace_quotes (String_of (if falsy txt then JStr [] else txt)) @ [dquote]"

definition headers :: "string list" where
  "headers = [''Task'', ''Start Time'', ''End Time'', ''Hours Worked'', ''Notes'']"

definition headers2 :: "string list" where
  "headers2 = [''Task'', ''Start'', ''End'', ''Duration'', ''Notes'']"

text \<open>The row of one entry: first revision, lines 123--132; later revision, lines 430--440.\<close>

definition csvRow ::
  "(string \<Rightarrow> int option) \<Rightarrow> (string \<Rightarrow> string) \<Rightarrow> TimeLog \<Rightarrow> string" where
  "csvRow parse fmt entry =
    (case calculateHoursWorked parse (start_time entry) (end_time entry) of
      (hours, minutes) \<Rightarrow>
        join '','' [
          escapeCsvField (task_name entry),
          escapeCsvField (JStr (formatDateTime fmt (start_time entry))),
          escapeCsvField (JStr (formatDateTime fmt (end_time entry))),
          escapeCsvField (JStr (formatHoursAndMinutes hours minutes)),
          escapeCsvField (notes_log entry)])"

definition csvRow2 ::
  "(string \<Rightarrow> int option) \<Rightarrow> (string \<Rightarrow> string) \<Rightarrow> TimeLog \<Rightarrow> string" where
  "csvRow2 parse fmt entry =
    (case calculateHoursWorked2 parse (start_time entry) (end_time entry) of
      (h, m) \<Rightarrow>
        join '','' [
          escape (task_name entry),
          escape (JStr (formatDateTime fmt (start_time entry))),
          escape (JStr (formatDateTime fmt (end_time entry))),
          escape (JStr (formatDuration h m)),
          escape (notes_log entry)])"

definition csvString ::
  "(string \<Rightarrow> int option) \<Rightarrow> (string \<Rightarrow> string) \<Rightarrow> TimeLog list \<Rightarrow> string" where
  "csvString parse fmt logsToExport =
    join [newline] (join '','' headers # map (csvRow parse fmt) logsToExport)"

definition csvString2 ::
  "(string \<Rightarrow> int option) \<Rightarrow> (string \<Rightarrow> string) \<Rightarrow> TimeLog list \<Rightarrow> string" where
  "csvString2 parse fmt logs_now =
    join [newline] (join '','' headers2 # map (csvRow2 parse fmt) logs_now)"

text \<open>The first line of a text: what precedes its first line feed.\<close>

definition first_line :: "string \<Rightarrow> string" where
  "first_line s = takeWhile (\<lambda>c. c \<noteq> newline) s"

section \<open>The component's state and its handlers\<close>

text \<open>
  The state the handlers read and write: the entry list, the loading flag and the error
  message of the component, and, of the browser, the alerts shown and the files offered
  for download so far. A handler takes the state and returns the new one.
  \<^verbatim>\<open>map\<close>, \<^verbatim>\<open>join\<close>, \<^verbatim>\<open>filter\<close> and the spread \<^verbatim>\<open>[...xs]\<close> build new arrays.
\<close>

record download =
  content :: string
  mime_type :: string
  file_name :: string

record dashboard =
  logs :: "TimeLog list"
  loading :: bool
  error :: string
  alerts :: "string list"
  downloads :: "download list"

definition save_as :: "string \<Rightarrow> dashboard \<Rightarrow> dashboard" where
  "save_as csv st = st\<lparr>downloads := downloads st @
     [\<lparr>content = csv, mime_type = ''text/csv;charset=utf-8;'', file_name = ''time_logs.csv''\<rparr>]\<rparr>"

text \<open>
  First revision, lines 104--148. \<open>download_supported\<close> is the browser's answer to
  \<^verbatim>\<open>link.download !== undefined\<close>.
\<close>

definition handleExportCSV ::
  "(string \<Rightarrow> int option) \<Rightarrow> (string \<Rightarrow> string) \<Rightarrow> bool \<Rightarrow> TimeLog list
     \<Rightarrow> dashboard \<Rightarrow> dashboard" where
  "handleExportCSV parse fmt download_supported logsToExport st =
    (if length logsToExport = 0 then st\<lparr>alerts := alerts st @ [''No data to export.'']\<rparr>
     else if download_supported then save_as (csvString parse fmt logsToExport) st
     else st)"

text \<open>Later revision, lines 427--450: the handler reads \<^verbatim>\<open>logs\<close> from the state.\<close>

definition handleExportCSV2 ::
  "(string \<Rightarrow> int option) \<Rightarrow> (string \<Rightarrow> string) \<Rightarrow> dashboard \<Rightarrow> dashboard" where
  "handleExportCSV2 parse fmt st =
    (if length (logs st) = 0 then st
     else save_as (csvString2 parse fmt (logs st)) st)"

text \<open>
  Later revision, lines 461--467. \<open>confirmed\<close> is the user's answer to the confirmation
  dialog and \<open>delete_error\<close> the store's answer to the delete (\<open>None\<close>: no error).
  \<open>handleDelete_optimistic\<close> is the state while the store is being called.
\<close>

definition handleDelete_optimistic :: "int \<Rightarrow> dashboard \<Rightarrow> dashboard" where
  "handleDelete_optimistic i st = st\<lparr>logs := filter (\<lambda>l. id_log l \<noteq> i) (logs st)\<rparr>"

definition handleDelete :: "bool \<Rightarrow> string option \<Rightarrow> int \<Rightarrow> dashboard \<Rightarrow> dashboard" where
  "handleDelete confirmed delete_error i st =
    (if \<not> confirmed then st
     else
       let prev = logs st;
           st1 = handleDelete_optimistic i st
       in (case delete_error of
             None \<Rightarrow> st1
           | Some e \<Rightarrow> st1\<lparr>error := ''Failed to delete'', logs := prev\<rparr>))"

text \<open>
  What the later revision draws (the JSX of lines 485--682) is computed from \<^verbatim>\<open>loading\<close>,
  \<^verbatim>\<open>logs\<close>, the totals of \<^verbatim>\<open>logs\<close> and the editing state. The message \<^verbatim>\<open>error\<close> is
  declared at line 413 and set at lines 422, 466 and 476; nothing reads it. \<open>view2\<close> is
  the part of this state that the drawing depends on.
\<close>

definition view2 :: "dashboard \<Rightarrow> bool \<times> TimeLog list" where
  "view2 st = (loading st, logs st)"

section \<open>Sample data\<close>

text \<open>The identity stands for the browser's date rendering in the worked examples.\<close>

definition sample_format :: "string \<Rightarrow> string" where
  "sample_format s = s"

definition entryA :: TimeLog where
  "entryA = \<lparr>id_log = 1, task_name = JStr ''Bug Fixing'',
     start_time = JStr ''2024-01-01T09:00'', end_time = JStr ''2024-01-01T11:30'',
     notes_log = JNull\<rparr>"

definition entryB :: TimeLog where
  "entryB = \<lparr>id_log = 2, task_name = JStr ''Meeting/Discussion'',
     start_time = JStr ''2024-01-02T08:00'', end_time = JStr ''2024-01-02T08:45'',
     notes_log = JStr ''weekly''\<rparr>"

definition entryC :: TimeLog where
  "entryC = \<lparr>id_log = 3, task_name = JUndefined,
     start_time = JStr ''2024-01-02T08:45'', end_time = JStr ''2024-01-02T08:47:05'',
     notes_log = JNull\<rparr>"

definition empty_dashboard :: dashboard where
  "empty_dashboard = \<lparr>logs = [], loading = False, error = [], alerts = [], downloads = []\<rparr>"

section \<open>Rounding to the nearest double\<close>

lemma rhe_ge: "of_int n \<le> q \<Longrightarrow> n \<le> rhe q"
proof -
  assume "of_int n \<le> q"
  then have "n \<le> \<lfloor>q\<rfloor>" by (simp add: le_floor_iff)
  moreover have "\<lfloor>q\<rfloor> \<le> rhe q" by (simp add: rhe_def Let_def)
  ultimately show ?thesis by simp
qed

lemma rhe_le: "q \<le> of_int m \<Longrightarrow> rhe q \<le> m"
proof -
  assume le: "q \<le> of_int m"
  show ?thesis
  proof (cases "q - of_int \<lfloor>q\<rfloor> < 1 / 2")
    case True
    then have "rhe q = \<lfloor>q\<rfloor>" by (simp add: rhe_def Let_def)
    moreover from le have "\<lfloor>q\<rfloor> \<le> m" by (simp add: floor_le_iff)
    ultimately show ?thesis by simp
  next
    case False
    then have "of_int \<lfloor>q\<rfloor> < q" by linarith
    with le have "(of_int \<lfloor>q\<rfloor> :: rat) < of_int m" by linarith
    then have "\<lfloor>q\<rfloor> < m" by (simp only: of_int_less_iff)
    moreover have "rhe q \<le> \<lfloor>q\<rfloor> + 1" by (simp add: rhe_def Let_def)
    ultimately show ?thesis by simp
  qed
qed

lemma rhe_below_half: "q < of_int m - 1 / 2 \<Longrightarrow> rhe q \<le> m - 1"
proof -
  assume lt: "q < of_int m - 1 / 2"
  have fl: "of_int \<lfloor>q\<rfloor> \<le> q" by simp
  show ?thesis
  proof (cases "q - of_int \<lfloor>q\<rfloor> < 1 / 2")
    case True
    then have "rhe q = \<lfloor>q\<rfloor>" by (simp add: rhe_def Let_def)
    moreover from fl lt have "(of_int \<lfloor>q\<rfloor> :: rat) < of_int m" by linarith
    then have "\<lfloor>q\<rfloor> < m" by (simp only: of_int_less_iff)
    ultimately show ?thesis by simp
  next
    case False
    with lt have "(of_int \<lfloor>q\<rfloor> :: rat) + 1 < of_int m" by linarith
    then have "(of_int (\<lfloor>q\<rfloor> + 1) :: rat) < of_int m" by simp
    then have "\<lfloor>q\<rfloor> + 1 < m" by (simp only: of_int_less_iff)
    moreover have "rhe q \<le> \<lfloor>q\<rfloor> + 1" by (simp add: rhe_def Let_def)
    ultimately show ?thesis by simp
  qed
qed

lemma rhe_of_int: "rhe (of_int n) = n"
  by (simp add: rhe_def)

lemma ulp_up_bounds:
  "2 ^ 52 \<le> q \<Longrightarrow> 0 < ulp_up q \<and> 2 ^ 52 * ulp_up q \<le> q \<and> q < 2 ^ 53 * ulp_up q"
proof (induction q rule: ulp_up.induct)
  case (1 q)
  show ?case
  proof (cases "q < 2 ^ 53")
    case True
    then have "ulp_up q = 1" by (subst ulp_up.simps) simp
    with True "1.prems" show ?thesis by simp
  next
    case False
    then have u: "ulp_up q = 2 * ulp_up (q / 2)" by (subst ulp_up.simps) simp
    from False have "2 ^ 52 \<le> q / 2" by simp
    with False "1.IH" have "0 < ulp_up (q / 2) \<and> 2 ^ 52 * ulp_up (q / 2) \<le> q / 2
      \<and> q / 2 < 2 ^ 53 * ulp_up (q / 2)" by simp
    then show ?thesis by (simp add: u)
  qed
qed

lemma ulp_down_bounds:
  "0 < q \<Longrightarrow> q < 2 ^ 53 \<Longrightarrow>
     \<exists>i::nat. ulp_down q * 2 ^ i = 1 \<and> 2 ^ 52 * ulp_down q \<le> q \<and> q < 2 ^ 53 * ulp_down q"
proof (induction q rule: ulp_down.induct)
  case (1 q)
  show ?case
  proof (cases "2 ^ 52 \<le> q")
    case True
    then have "ulp_down q = 1" by (subst ulp_down.simps) simp
    with True "1.prems" have "ulp_down q * 2 ^ (0::nat) = 1 \<and> 2 ^ 52 * ulp_down q \<le> q
      \<and> q < 2 ^ 53 * ulp_down q" by simp
    then show ?thesis by blast
  next
    case False
    with "1.prems" have u: "ulp_down q = ulp_down (2 * q) / 2" by (subst ulp_down.simps) simp
    from False "1.prems" have "0 < 2 * q" and "2 * q < 2 ^ 53" by simp_all
    with False "1.prems" "1.IH" obtain i :: nat where
      i: "ulp_down (2 * q) * 2 ^ i = 1" "2 ^ 52 * ulp_down (2 * q) \<le> 2 * q"
        "2 * q < 2 ^ 53 * ulp_down (2 * q)" by auto
    from i have "ulp_down q * 2 ^ Suc i = 1 \<and> 2 ^ 52 * ulp_down q \<le> q
      \<and> q < 2 ^ 53 * ulp_down q" by (simp add: u)
    then show ?thesis by blast
  qed
qed

lemma ulp_pos:
  assumes "0 < q"
  shows "0 < ulp q \<and> 2 ^ 52 * ulp q \<le> q \<and> q < 2 ^ 53 * ulp q"
proof (cases "2 ^ 52 \<le> q")
  case True
  then show ?thesis using ulp_up_bounds [OF True] by (simp add: ulp_def)
next
  case False
  then have "q < 2 ^ 53" by simp
  from ulp_down_bounds [OF assms this] obtain i :: nat where
    i: "ulp_down q * 2 ^ i = 1" "2 ^ 52 * ulp_down q \<le> q" "q < 2 ^ 53 * ulp_down q" by blast
  from i(1) have "0 < ulp_down q"
    by (metis zero_less_mult_iff zero_less_one zero_less_power zero_less_numeral less_asym)
  with i False show ?thesis by (simp add: ulp_def)
qed

lemma ulp_small:
  assumes "0 < q" and "q < 2 ^ 53"
  shows "\<exists>i::nat. ulp q * 2 ^ i = 1"
proof (cases "2 ^ 52 \<le> q")
  case True
  with assms have "ulp_up q = 1" by (subst ulp_up.simps) simp
  with True have "ulp q * 2 ^ (0::nat) = 1" by (simp add: ulp_def)
  then show ?thesis by blast
next
  case False
  from ulp_down_bounds [OF assms] False show ?thesis by (auto simp: ulp_def)
qed

text \<open>
  Below \<open>2^53\<close> rounding is rounding to an integer after scaling by a power of two that
  brings the value between \<open>2^52\<close> and \<open>2^53\<close>.
\<close>

lemma rnd_scaled:
  assumes "0 < y" and "y < 2 ^ 53"
  shows "\<exists>i::nat. rnd y * 2 ^ i = of_int (rhe (y * 2 ^ i)) \<and> 2 ^ 52 \<le> y * 2 ^ i
           \<and> y * 2 ^ i < 2 ^ 53"
proof -
  from ulp_small [OF assms] obtain i :: nat where i: "ulp y * 2 ^ i = 1" by blast
  have p: "(0::rat) < 2 ^ i" by simp
  from i have u: "ulp y = 1 / 2 ^ i" by (simp add: field_simps)
  from ulp_pos [OF assms(1)] have "2 ^ 52 * ulp y \<le> y" and "y < 2 ^ 53 * ulp y" by simp_all
  with p have b: "2 ^ 52 \<le> y * 2 ^ i" "y * 2 ^ i < 2 ^ 53"
    by (simp_all add: u field_simps)
  from assms(1) have "rnd y = ulp y * of_int (rhe (y / ulp y))" by (simp add: rnd_def)
  then have "rnd y * 2 ^ i = of_int (rhe (y * 2 ^ i))" by (simp add: u)
  with b show ?thesis by blast
qed

text \<open>Rounding does not go below an integer that the value is not below.\<close>

lemma rnd_lower:
  assumes "0 \<le> y" and "y < 2 ^ 53" and "of_int K \<le> y"
  shows "of_int K \<le> rnd y"
proof (cases "y = 0")
  case True
  with assms(3) show ?thesis by (simp add: rnd_def)
next
  case False
  with assms(1) have "0 < y" by simp
  from rnd_scaled [OF this assms(2)] obtain i :: nat where
    r: "rnd y * 2 ^ i = of_int (rhe (y * 2 ^ i))" by blast
  have p: "(0::rat) < 2 ^ i" by simp
  from assms(3) p have "of_int K * 2 ^ i \<le> y * 2 ^ i" by simp
  then have "of_int (K * 2 ^ i) \<le> y * 2 ^ i" by simp
  then have "K * 2 ^ i \<le> rhe (y * 2 ^ i)" by (rule rhe_ge)
  then have "(of_int (K * 2 ^ i) :: rat) \<le> of_int (rhe (y * 2 ^ i))"
    by (simp only: of_int_le_iff)
  then have "of_int K * 2 ^ i \<le> rnd y * 2 ^ i" by (simp add: r)
  with p show ?thesis by simp
qed

lemma gap_int:
  fixes v n :: int
  assumes "n \<le> v - 1" and "n \<le> 2 ^ 53" and "v \<le> 2 ^ 53 \<or> even v"
  shows "v \<le> (v - n) * 2 ^ 53"
proof (cases "v \<le> 2 ^ 53")
  case True
  from assms(1) have "1 \<le> v - n" by simp
  then have "1 * 2 ^ 53 \<le> (v - n) * (2 ^ 53 :: int)" by (rule mult_right_mono) simp
  with True show ?thesis by simp
next
  case False
  with assms(3) have "even v" by simp
  then obtain k where k: "v = 2 * k" by (elim evenE)
  from False have "9007199254740992 < v" by simp
  with k have "9007199254740994 \<le> v" by arith
  moreover from assms(2) have "(v - 2 ^ 53) * 2 ^ 53 \<le> (v - n) * (2 ^ 53 :: int)"
    by (intro mult_right_mono) simp_all
  ultimately show ?thesis by simp
qed

text \<open>
  A value that stays below the integer \<open>M\<close> by at least \<open>M / 2^53\<close>, the least distance
  of a double below \<open>M\<close>, does so after rounding.
\<close>

lemma rnd_upper:
  assumes "0 \<le> y" and "M \<le> 2 ^ 53" and "of_int M \<le> (of_int M - y) * 2 ^ 53"
  shows "of_int M \<le> (of_int M - rnd y) * 2 ^ 53"
proof (cases "y = 0")
  case True
  with assms(3) show ?thesis by (simp add: rnd_def)
next
  case False
  with assms(1) have ypos: "0 < y" by simp
  have Mpos: "0 < M"
  proof (rule ccontr)
    assume "\<not> 0 < M"
    then have "(of_int M :: rat) \<le> 0" by simp
    with assms(3) ypos show False by simp
  qed
  then have Mr: "(0::rat) < of_int M" by simp
  from assms(3) Mr have "y < of_int M" by simp
  moreover from assms(2) have "(of_int M :: rat) \<le> 2 ^ 53"
    by (metis of_int_le_iff of_int_numeral of_int_power)
  ultimately have ysmall: "y < 2 ^ 53" by simp
  from rnd_scaled [OF ypos ysmall] obtain i :: nat where
    r: "rnd y * 2 ^ i = of_int (rhe (y * 2 ^ i))" and lo: "2 ^ 52 \<le> y * 2 ^ i"
    and hi: "y * 2 ^ i < 2 ^ 53" by blast
  define n where "n = rhe (y * 2 ^ i)"
  define v where "v = M * 2 ^ i"
  have p: "(0::rat) < 2 ^ i" by simp
  have vr: "(of_int v :: rat) = of_int M * 2 ^ i" by (simp add: v_def)
  from assms(3) p have "of_int M * 2 ^ i \<le> (of_int M - y) * 2 ^ 53 * 2 ^ i" by simp
  then have s: "of_int v \<le> (of_int v - y * 2 ^ i) * 2 ^ 53" by (simp add: vr algebra_simps)
  from s lo have "(2 ^ 52 :: rat) < of_int v" by simp
  with s have "y * 2 ^ i < of_int v - 1 / 2" by simp
  then have n1: "n \<le> v - 1" unfolding n_def by (rule rhe_below_half)
  from hi have "y * 2 ^ i \<le> of_int (2 ^ 53)" by simp
  then have n2: "n \<le> 2 ^ 53" unfolding n_def by (rule rhe_le)
  have par: "v \<le> 2 ^ 53 \<or> even v"
  proof (cases i)
    case 0
    with assms(2) show ?thesis by (simp add: v_def)
  next
    case (Suc k)
    then show ?thesis by (simp add: v_def)
  qed
  from gap_int [OF n1 n2 par] have "(of_int v :: rat) \<le> of_int ((v - n) * 2 ^ 53)"
    by (simp only: of_int_le_iff)
  then have "of_int M * 2 ^ i \<le> (of_int M * 2 ^ i - rnd y * 2 ^ i) * 2 ^ 53"
    by (simp add: vr r n_def)
  then have "of_int M * 2 ^ i \<le> ((of_int M - rnd y) * 2 ^ 53) * 2 ^ i"
    by (simp add: algebra_simps)
  with p show ?thesis by (simp only: mult_le_cancel_right_pos)
qed

text \<open>Integers up to \<open>2^53\<close> are doubles.\<close>

lemma rnd_of_int_pos:
  assumes "0 < n" and "n < 2 ^ 53"
  shows "rnd (of_int n) = of_int n"
proof -
  from assms(1) have a: "(0::rat) < of_int n" by simp
  from assms(2) have "(of_int n :: rat) < of_int (2 ^ 53)" by (simp only: of_int_less_iff)
  then have b: "(of_int n :: rat) < 2 ^ 53" by simp
  from rnd_scaled [OF a b] obtain i :: nat where
    r: "rnd (of_int n) * 2 ^ i = of_int (rhe (of_int n * 2 ^ i))" by blast
  have "(of_int n :: rat) * 2 ^ i = of_int (n * 2 ^ i)" by simp
  then have "rhe (of_int n * 2 ^ i) = n * 2 ^ i" by (simp only: rhe_of_int)
  with r have "rnd (of_int n) * 2 ^ i = of_int n * 2 ^ i" by simp
  then show ?thesis by simp
qed

lemma rnd_two_53: "rnd (2 ^ 53) = 2 ^ 53"
proof -
  have "rnd 9007199254740992 = 9007199254740992" by code_simp
  then show ?thesis by simp
qed

lemma rnd_of_int:
  assumes "0 \<le> n" and "n \<le> 2 ^ 53"
  shows "rnd (of_int n) = of_int n"
proof -
  from assms consider "n = 0" | "0 < n \<and> n < 2 ^ 53" | "n = 2 ^ 53" by linarith
  then show ?thesis
  proof cases
    case 1
    then show ?thesis by (simp add: rnd_def)
  next
    case 2
    then show ?thesis by (simp add: rnd_of_int_pos)
  next
    case 3
    then show ?thesis using rnd_two_53 by simp
  qed
qed

lemma rnd_negative:
  assumes "q < 0"
  shows "rnd q < 0"
proof -
  from assms have p: "0 < - q" by simp
  from ulp_pos [OF p] have u: "0 < ulp (- q)" and lo: "2 ^ 52 * ulp (- q) \<le> - q" by simp_all
  from u lo have "of_int (2 ^ 52) \<le> - q / ulp (- q)" by (simp add: field_simps)
  then have "2 ^ 52 \<le> rhe (- q / ulp (- q))" by (rule rhe_ge)
  then have "0 < rhe (- q / ulp (- q))" by simp
  then have "(0::rat) < of_int (rhe (- q / ulp (- q)))" by simp
  with u have "0 < ulp (- q) * of_int (rhe (- q / ulp (- q)))" by simp
  with assms show ?thesis by (simp add: rnd_def)
qed

text \<open>
  One division by a positive integer \<open>c\<close>: if the dividend is at least \<open>c * K\<close> and below
  \<open>c * M\<close> by the least distance of a double, the rounded quotient is at least \<open>K\<close> and
  below \<open>M\<close> by the least distance of a double.
\<close>

lemma div_step:
  fixes c K M :: int
  assumes "0 \<le> x" and "0 < c" and "M \<le> 2 ^ 53"
    and "of_int (c * K) \<le> x"
    and "of_int (c * M) \<le> (of_int (c * M) - x) * 2 ^ 53"
  shows "of_int K \<le> rnd (x / of_int c)
       \<and> of_int M \<le> (of_int M - rnd (x / of_int c)) * 2 ^ 53"
proof -
  define y where "y = x / of_int c"
  from assms(2) have c: "(0::rat) < of_int c" by simp
  with assms(1) have y0: "0 \<le> y" by (simp add: y_def)
  from c have x: "x = y * of_int c" by (simp add: y_def)
  from assms(4) c have lo: "of_int K \<le> y" by (simp add: x mult.commute)
  from assms(5) have "of_int M * of_int c \<le> ((of_int M - y) * 2 ^ 53) * of_int c"
    by (simp add: x algebra_simps)
  with c have up: "of_int M \<le> (of_int M - y) * 2 ^ 53"
    by (simp only: mult_le_cancel_right_pos)
  have ysmall: "y < 2 ^ 53"
  proof (cases "0 < M")
    case True
    then have "(0::rat) < of_int M" by simp
    with up have "y < of_int M" by simp
    moreover from assms(3) have "(of_int M :: rat) \<le> 2 ^ 53"
      by (metis of_int_le_iff of_int_numeral of_int_power)
    ultimately show ?thesis by simp
  next
    case False
    then have "(of_int M :: rat) \<le> 0" by simp
    with up have "y \<le> 0" by simp
    then show ?thesis by simp
  qed
  from rnd_lower [OF y0 ysmall lo] rnd_upper [OF y0 assms(3) up]
  show ?thesis by (simp add: y_def)
qed

lemma first_step:
  fixes d c K M :: int
  assumes "0 \<le> d" and "d \<le> 2 ^ 53" and "0 < c" and "even c" and "M \<le> 2 ^ 53"
    and "c * K \<le> d" and "d < c * M"
  shows "of_int K \<le> rnd (of_int d / of_int c)
       \<and> of_int M \<le> (of_int M - rnd (of_int d / of_int c)) * 2 ^ 53"
proof -
  from assms(7) have n1: "d \<le> c * M - 1" by simp
  from assms(4) have par: "c * M \<le> 2 ^ 53 \<or> even (c * M)" by simp
  from gap_int [OF n1 assms(2) par]
  have "(of_int (c * M) :: rat) \<le> of_int ((c * M - d) * 2 ^ 53)"
    by (simp only: of_int_le_iff)
  then have up: "(of_int (c * M) :: rat) \<le> (of_int (c * M) - of_int d) * 2 ^ 53" by simp
  from assms(6) have lo: "(of_int (c * K) :: rat) \<le> of_int d" by (simp only: of_int_le_iff)
  from assms(1) have d0: "(0::rat) \<le> of_int d" by simp
  from div_step [OF d0 assms(3) assms(5) lo up] show ?thesis .
qed

lemma floor_between:
  fixes K :: int and z :: rat
  assumes "0 \<le> K" and "of_int K \<le> z" and "of_int (K + 1) \<le> (of_int (K + 1) - z) * 2 ^ 53"
  shows "of_int K \<le> z \<and> z < of_int K + 1"
proof -
  from assms(1) have "(0::rat) < of_int (K + 1)" by simp
  with assms(3) have "0 < (of_int (K + 1) - z) * 2 ^ 53" by simp
  then have "z < of_int (K + 1)" by simp
  with assms(2) show ?thesis by simp
qed

text \<open>
  The rounded quotient of an integer of at most \<open>2^53\<close> by an even positive integer lies
  in the same unit interval as the exact quotient.
\<close>

lemma floor_rnd_div:
  fixes d c :: int
  assumes "0 \<le> d" and "d \<le> 2 ^ 53" and "0 < c" and "even c"
  shows "of_int (d div c) \<le> rnd (of_int d / of_int c)
       \<and> rnd (of_int d / of_int c) < of_int (d div c) + 1"
proof -
  from assms(1,3) have k0: "0 \<le> d div c" by (simp add: pos_imp_zdiv_nonneg_iff)
  have dm: "c * (d div c) + d mod c = d" by (rule mult_div_mod_eq)
  from assms(3) have m0: "0 \<le> d mod c" and m1: "d mod c < c" by simp_all
  from dm m0 have lo: "c * (d div c) \<le> d" by linarith
  have "c * (d div c + 1) = c * (d div c) + c" by (simp add: algebra_simps)
  with dm m1 have hi: "d < c * (d div c + 1)" by linarith
  from assms(3,4) have "2 \<le> c" by presburger
  with assms(1) have "d div c \<le> d div 2" by (simp add: zdiv_mono2)
  with assms(2) have M: "d div c + 1 \<le> 2 ^ 53" by simp
  from first_step [OF assms(1,2,3,4) M lo hi]
  show ?thesis using floor_between [OF k0] by blast
qed

section \<open>Arithmetic of the duration calculator\<close>

lemma floor_unit:
  fixes K :: int and z :: rat
  assumes "of_int K \<le> z \<and> z < of_int K + 1"
  shows "\<lfloor>z\<rfloor> = K"
  using assms by (intro floor_unique) simp_all

lemma hours_floor2:
  assumes "0 \<le> d" and "d \<le> 2 ^ 53"
  shows "\<lfloor>rnd ((of_int d :: rat) / 3600000)\<rfloor> = d div 3600000"
proof -
  have "of_int (d div 3600000) \<le> rnd (of_int d / of_int 3600000)
      \<and> rnd (of_int d / of_int 3600000) < of_int (d div 3600000) + 1"
    by (rule floor_rnd_div [OF assms]) simp_all
  then have "\<lfloor>rnd (of_int d / of_int 3600000)\<rfloor> = d div 3600000" by (rule floor_unit)
  then show ?thesis by simp
qed

lemma minutes_between2:
  assumes "0 \<le> d" and "d \<le> 2 ^ 53"
  shows "of_int (d div 60000) \<le> rnd ((of_int d :: rat) / 60000)
       \<and> rnd ((of_int d :: rat) / 60000) < of_int (d div 60000) + 1"
proof -
  have "of_int (d div 60000) \<le> rnd (of_int d / of_int 60000)
      \<and> rnd (of_int d / of_int 60000) < of_int (d div 60000) + 1"
    by (rule floor_rnd_div [OF assms]) simp_all
  then show ?thesis by simp
qed

text \<open>
  The three divisions of the first revision, for the hours (\<open>c = 3600000\<close>, three steps)
  and for the minutes (\<open>c = 60000\<close>, the first two steps).
\<close>

lemma two_divisions:
  fixes d k :: int
  assumes "0 \<le> d" and "d \<le> 2 ^ 53" and "0 \<le> k" and "60000 * k \<le> d" and "d < 60000 * (k + 1)"
  shows "of_int k \<le> rnd (rnd ((of_int d :: rat) / 1000) / 60)
       \<and> of_int (k + 1) \<le> (of_int (k + 1) - rnd (rnd ((of_int d :: rat) / 1000) / 60)) * 2 ^ 53"
proof -
  define x1 where "x1 = rnd ((of_int d :: rat) / of_int 1000)"
  from assms(2,4) have M1: "60 * (k + 1) \<le> (2 ^ 53 :: int)" by simp
  from assms(4) have lo1: "1000 * (60 * k) \<le> d" by simp
  from assms(5) have hi1: "d < 1000 * (60 * (k + 1))" by simp
  have s1: "of_int (60 * k) \<le> x1
      \<and> of_int (60 * (k + 1)) \<le> (of_int (60 * (k + 1)) - x1) * 2 ^ 53"
    unfolding x1_def by (rule first_step [OF assms(1,2) _ _ M1 lo1 hi1]) simp_all
  from assms(3) s1 have x10: "0 \<le> x1" by simp
  from M1 have M2: "k + 1 \<le> (2 ^ 53 :: int)" by simp
  from s1 have "of_int k \<le> rnd (x1 / of_int 60)
      \<and> of_int (k + 1) \<le> (of_int (k + 1) - rnd (x1 / of_int 60)) * 2 ^ 53"
    by (intro div_step [OF x10 _ M2]) simp_all
  then show ?thesis by (simp add: x1_def)
qed

lemma minutes_between:
  assumes "0 \<le> d" and "d \<le> 2 ^ 53"
  shows "of_int (d div 60000) \<le> rnd (rnd ((of_int d :: rat) / 1000) / 60)
       \<and> rnd (rnd ((of_int d :: rat) / 1000) / 60) < of_int (d div 60000) + 1"
proof -
  from assms(1) have k0: "0 \<le> d div 60000" by (simp add: pos_imp_zdiv_nonneg_iff)
  have dm: "60000 * (d div 60000) + d mod 60000 = d" by (rule mult_div_mod_eq)
  have m0: "0 \<le> d mod 60000" and m1: "d mod 60000 < 60000" by simp_all
  from dm m0 have lo: "60000 * (d div 60000) \<le> d" by linarith
  have "60000 * (d div 60000 + 1) = 60000 * (d div 60000) + 60000" by simp
  with dm m1 have hi: "d < 60000 * (d div 60000 + 1)" by linarith
  from two_divisions [OF assms k0 lo hi] show ?thesis
    using floor_between [OF k0] by blast
qed

lemma hours_floor:
  assumes "0 \<le> d" and "d \<le> 2 ^ 53"
  shows "\<lfloor>rnd (rnd (rnd ((of_int d :: rat) / 1000) / 60) / 60)\<rfloor> = d div 3600000"
proof -
  define k where "k = d div 3600000"
  define x2 where "x2 = rnd (rnd ((of_int d :: rat) / 1000) / 60)"
  from assms(1) have k0: "0 \<le> k" by (simp add: k_def pos_imp_zdiv_nonneg_iff)
  have dm: "3600000 * k + d mod 3600000 = d" unfolding k_def by (rule mult_div_mod_eq)
  have m0: "0 \<le> d mod 3600000" and m1: "d mod 3600000 < 3600000" by simp_all
  from dm m0 have lo: "60000 * (60 * k) \<le> d" by linarith
  have "60000 * (60 * k + 59 + 1) = 3600000 * k + 3600000" by simp
  with dm m1 have hi: "d < 60000 * (60 * k + 59 + 1)" by linarith
  from k0 have k60: "0 \<le> 60 * k" by simp
  from assms(2) lo have M: "k + 1 \<le> (2 ^ 53 :: int)" by simp
  have lo': "60000 * (60 * k) \<le> d" by (rule lo)
  have hi': "d < 60000 * (60 * (k + 1) - 1 + 1)" using hi by simp
  have a: "of_int (60 * k) \<le> x2"
    unfolding x2_def
  proof -
    have "60000 * (d div 60000) + d mod 60000 = d" by (rule mult_div_mod_eq)
    moreover have "0 \<le> d mod 60000" and "d mod 60000 < 60000" by simp_all
    ultimately have "60 * k \<le> d div 60000" using lo by linarith
    then have "(of_int (60 * k) :: rat) \<le> of_int (d div 60000)" by (simp only: of_int_le_iff)
    with minutes_between [OF assms]
    show "of_int (60 * k) \<le> rnd (rnd (of_int d / 1000) / 60)" by linarith
  qed
  have b: "of_int (60 * (k + 1)) \<le> (of_int (60 * (k + 1)) - x2) * 2 ^ 53"
  proof -
    have "60000 * (60 * (k + 1) - 1) \<le> d \<or> d < 60000 * (60 * (k + 1) - 1)" by linarith
    then show ?thesis
    proof
      assume top: "60000 * (60 * (k + 1) - 1) \<le> d"
      from k0 have j0: "0 \<le> 60 * (k + 1) - 1" by simp
      from two_divisions [OF assms j0 top hi']
      show ?thesis by (simp add: x2_def)
    next
      assume low: "d < 60000 * (60 * (k + 1) - 1)"
      have "60000 * (d div 60000) + d mod 60000 = d" by (rule mult_div_mod_eq)
      moreover have "0 \<le> d mod 60000" by simp
      moreover have "60000 * (60 * (k + 1) - 1) = 60000 * (60 * k + 59)" by simp
      ultimately have "60000 * (d div 60000) < 60000 * (60 * k + 59)" using low by linarith
      then have "d div 60000 < 60 * k + 59" by (simp only: mult_less_cancel_left_pos)
      then have "d div 60000 + 1 \<le> 60 * (k + 1) - 1" by simp
      then have "(of_int (d div 60000 + 1) :: rat) \<le> of_int (60 * (k + 1) - 1)"
        by (simp only: of_int_le_iff)
      with minutes_between [OF assms] have "x2 \<le> of_int (60 * (k + 1)) - 1"
        by (simp add: x2_def)
      then have "1 \<le> of_int (60 * (k + 1)) - x2" by simp
      then have "1 * 2 ^ 53 \<le> (of_int (60 * (k + 1)) - x2) * 2 ^ 53"
        by (rule mult_right_mono) simp
      moreover from assms(2) lo have "60 * (k + 1) \<le> (2 ^ 53 :: int)" by simp
      then have "(of_int (60 * (k + 1)) :: rat) \<le> of_int (2 ^ 53)" by (simp only: of_int_le_iff)
      ultimately show ?thesis by simp
    qed
  qed
  from k60 a have x20: "0 \<le> x2" by simp
  from a b have "of_int k \<le> rnd (x2 / of_int 60)
      \<and> of_int (k + 1) \<le> (of_int (k + 1) - rnd (x2 / of_int 60)) * 2 ^ 53"
    by (intro div_step [OF x20 _ M]) simp_all
  with floor_between [OF k0] have "of_int k \<le> rnd (x2 / of_int 60)
      \<and> rnd (x2 / of_int 60) < of_int k + 1" by blast
  then have "\<lfloor>rnd (x2 / of_int 60)\<rfloor> = k" by (rule floor_unit)
  then show ?thesis by (simp add: x2_def k_def)
qed

text \<open>The minutes: the floor of the remainder modulo 60 of a value in a unit interval.\<close>

lemma minutes_of:
  fixes m :: int and z :: rat
  assumes "0 \<le> m" and "of_int m \<le> z \<and> z < of_int m + 1"
  shows "\<lfloor>z - 60 * of_int (trunc (z / 60))\<rfloor> = m mod 60"
proof -
  from assms have z0: "0 \<le> z / 60" by simp
  have dm: "60 * (m div 60) + m mod 60 = m" by (rule mult_div_mod_eq)
  have m0: "0 \<le> m mod 60" and m1: "m mod 60 < 60" by simp_all
  from dm m0 have "(of_int (60 * (m div 60)) :: rat) \<le> of_int m" by (simp only: of_int_le_iff)
  with assms(2) have lo: "of_int (m div 60) \<le> z / 60" by simp
  have "60 * (m div 60 + 1) = 60 * (m div 60) + 60" by simp
  with dm m1 have "m + 1 \<le> 60 * (m div 60 + 1)" by linarith
  then have "(of_int (m + 1) :: rat) \<le> of_int (60 * (m div 60 + 1))" by (simp only: of_int_le_iff)
  with assms(2) have hi: "z / 60 < of_int (m div 60) + 1" by simp
  from lo hi have "\<lfloor>z / 60\<rfloor> = m div 60" by (intro floor_unique) simp_all
  with z0 have t: "trunc (z / 60) = m div 60" by (simp add: trunc_def)
  have "z - 60 * of_int (m div 60) = z - of_int (60 * (m div 60))" by simp
  then have "\<lfloor>z - 60 * of_int (m div 60)\<rfloor> = \<lfloor>z\<rfloor> - 60 * (m div 60)"
    by (simp only: floor_diff_of_int)
  moreover from assms(2) have "\<lfloor>z\<rfloor> = m" by (rule floor_unit)
  ultimately show ?thesis by (simp add: t minus_mult_div_eq_mod)
qed

lemma whole_seconds_hours: "(d::int) div 1000 div 3600 = d div 3600000"
  by (simp add: div_mult2_eq [symmetric])

lemma whole_seconds_minutes: "(d::int) div 1000 div 60 = d div 60000"
  by (simp add: div_mult2_eq [symmetric])

lemma whole_seconds_neg: "((d::int) div 1000 < 0) = (d < 0)"
  by (simp add: div_neg_pos_less0 pos_imp_zdiv_neg_iff)

lemma getTime_valid:
  assumes "parse s = Some a" and "\<bar>a\<bar> \<le> 8640000000000000"
  shows "getTime parse (JStr s) = Some (of_int a)"
  using assms by (simp add: time_clip_def)

lemma calc_ms:
  assumes "s \<noteq> []" "e \<noteq> []" "parse s = Some a" "parse e = Some b"
    and "\<bar>a\<bar> \<le> 8640000000000000" "\<bar>b\<bar> \<le> 8640000000000000" "b - a \<le> 2 ^ 53"
  shows "calculateHoursWorked parse (JStr s) (JStr e) =
          (if b - a < 0 then (Num 0, Num 0)
           else (Num ((b - a) div 3600000), Num ((b - a) div 60000 mod 60)))"
proof -
  from assms(5) have gs: "time_clip a = Some (of_int a)" by (simp add: time_clip_def)
  from assms(6) have ge: "time_clip b = Some (of_int b)" by (simp add: time_clip_def)
  note ne = assms(1,2,3,4)
  have sub: "dsub (Some (of_int b)) (Some (of_int a)) = Some (rnd (of_int (b - a)))"
    by (simp add: dsub_def)
  show ?thesis
  proof (cases "b - a < 0")
    case True
    then have "(of_int (b - a) :: rat) < 0" by simp
    then have "rnd (of_int (b - a)) < 0" by (rule rnd_negative)
    with True show ?thesis
      by (simp add: calculateHoursWorked_def ne gs ge sub isNaN_def dneg_def Let_def
          del: of_int_diff)
  next
    case False
    then have d: "0 \<le> b - a" by simp
    from rnd_of_int [OF d assms(7)] have r: "rnd (of_int (b - a)) = of_int (b - a)" .
    from d have nn: "\<not> (of_int (b - a) :: rat) < 0" by simp
    have h: "\<lfloor>rnd (rnd (rnd ((of_int (b - a) :: rat) / 1000) / 60) / 60)\<rfloor> = (b - a) div 3600000"
      by (rule hours_floor [OF d assms(7)])
    have m: "\<lfloor>rnd (rnd ((of_int (b - a) :: rat) / 1000) / 60)
               - 60 * of_int (trunc (rnd (rnd ((of_int (b - a) :: rat) / 1000) / 60) / 60))\<rfloor>
             = (b - a) div 60000 mod 60"
      by (rule minutes_of [OF _ minutes_between [OF d assms(7)]])
        (use d in \<open>simp add: pos_imp_zdiv_nonneg_iff\<close>)
    from False nn show ?thesis
      using h m
      by (simp add: calculateHoursWorked_def ne gs ge sub r isNaN_def dneg_def ddiv_def dmod_def
          Math_floor_def Let_def del: of_int_diff)
  qed
qed

lemma calc2_ms:
  assumes "s \<noteq> []" "e \<noteq> []" "parse s = Some a" "parse e = Some b"
    and "\<bar>a\<bar> \<le> 8640000000000000" "\<bar>b\<bar> \<le> 8640000000000000" "b - a \<le> 2 ^ 53"
  shows "calculateHoursWorked2 parse (JStr s) (JStr e) =
          (if b - a < 0 then (Num 0, Num 0)
           else (Num ((b - a) div 3600000), Num ((b - a) div 60000 mod 60)))"
proof -
  from assms(5) have gs: "time_clip a = Some (of_int a)" by (simp add: time_clip_def)
  from assms(6) have ge: "time_clip b = Some (of_int b)" by (simp add: time_clip_def)
  note ne = assms(1,2,3,4)
  have sub: "dsub (Some (of_int b)) (Some (of_int a)) = Some (rnd (of_int (b - a)))"
    by (simp add: dsub_def)
  show ?thesis
  proof (cases "b - a < 0")
    case True
    then have "(of_int (b - a) :: rat) < 0" by simp
    then have "rnd (of_int (b - a)) < 0" by (rule rnd_negative)
    with True show ?thesis
      by (simp add: calculateHoursWorked2_def ne gs ge sub dneg_def Let_def del: of_int_diff)
  next
    case False
    then have d: "0 \<le> b - a" by simp
    from rnd_of_int [OF d assms(7)] have r: "rnd (of_int (b - a)) = of_int (b - a)" .
    from d have nn: "\<not> (of_int (b - a) :: rat) < 0" by simp
    have h: "\<lfloor>rnd ((of_int (b - a) :: rat) / 3600000)\<rfloor> = (b - a) div 3600000"
      by (rule hours_floor2 [OF d assms(7)])
    have m: "\<lfloor>rnd ((of_int (b - a) :: rat) / 60000)
               - 60 * of_int (trunc (rnd ((of_int (b - a) :: rat) / 60000) / 60))\<rfloor>
             = (b - a) div 60000 mod 60"
      by (rule minutes_of [OF _ minutes_between2 [OF d assms(7)]])
        (use d in \<open>simp add: pos_imp_zdiv_nonneg_iff\<close>)
    from False nn show ?thesis
      using h m
      by (simp add: calculateHoursWorked2_def ne gs ge sub r dneg_def ddiv_def dmod_def
          Math_floor_def Let_def del: of_int_diff)
  qed
qed

section \<open>Duration of two parsable timestamps\<close>

text \<open>
  Claim C1, as the code has it. For two timestamps, non-empty strings that the browser
  reads as dates, at the time values \<open>a\<close> (start) and \<open>b\<close> (end) in milliseconds, both
  within the range of a date and with \<open>b - a \<le> 2^53\<close> (some 285,000 years), let the
  difference in whole seconds be
  \<open>(b - a) div 1000\<close>. Both revisions of the calculator return \<open>(0, 0)\<close> when it is
  negative, and otherwise the hours \<open>diff div 3600\<close> and the minutes
  \<open>diff div 60 mod 60\<close>: the seconds are cut off, never rounded.
\<close>

theorem duration_of_parsable:
  assumes "s \<noteq> []" and "e \<noteq> []" and "parse s = Some a" and "parse e = Some b"
    and "\<bar>a\<bar> \<le> 8640000000000000" and "\<bar>b\<bar> \<le> 8640000000000000"
    and "b - a \<le> 2 ^ 53"
  shows "calculateHoursWorked parse (JStr s) (JStr e) =
           (if (b - a) div 1000 < 0 then (Num 0, Num 0)
            else (Num ((b - a) div 1000 div 3600), Num ((b - a) div 1000 div 60 mod 60)))
       \<and> calculateHoursWorked2 parse (JStr s) (JStr e) =
           (if (b - a) div 1000 < 0 then (Num 0, Num 0)
            else (Num ((b - a) div 1000 div 3600), Num ((b - a) div 1000 div 60 mod 60)))"
  unfolding whole_seconds_hours whole_seconds_minutes whole_seconds_neg
  using calc_ms [OF assms] calc2_ms [OF assms] by simp

theorem duration_of_parsable_witness:
  "''2024-01-02T08:45'' \<noteq> [] \<and> ''2024-01-02T08:47:05'' \<noteq> []
   \<and> sample_parse ''2024-01-02T08:45'' = Some 1704185100000
   \<and> sample_parse ''2024-01-02T08:47:05'' = Some 1704185225000
   \<and> \<bar>1704185100000 :: int\<bar> \<le> 8640000000000000
   \<and> \<bar>1704185225000 :: int\<bar> \<le> 8640000000000000
   \<and> (1704185225000 :: int) - 1704185100000 \<le> 2 ^ 53
   \<and> calculateHoursWorked sample_parse (JStr ''2024-01-02T08:45'') (JStr ''2024-01-02T08:47:05'')
       = (Num 0, Num 2)
   \<and> calculateHoursWorked2 sample_parse (JStr ''2024-01-02T08:45'') (JStr ''2024-01-02T08:47:05'')
       = (Num 0, Num 2)
   \<and> calculateHoursWorked sample_parse (JStr ''2024-01-02T08:47:05'') (JStr ''2024-01-02T08:45'')
       = (Num 0, Num 0)"
proof -
  have p1: "sample_parse ''2024-01-02T08:45'' = Some 1704185100000"
    by (simp add: sample_parse_def)
  have p2: "sample_parse ''2024-01-02T08:47:05'' = Some 1704185225000"
    by (simp add: sample_parse_def)
  have n1: "''2024-01-02T08:45'' \<noteq> []" by simp
  have n2: "''2024-01-02T08:47:05'' \<noteq> []" by simp
  have r1: "\<bar>1704185100000 :: int\<bar> \<le> 8640000000000000" by simp
  have r2: "\<bar>1704185225000 :: int\<bar> \<le> 8640000000000000" by simp
  have d12: "(1704185225000 :: int) - 1704185100000 \<le> 2 ^ 53" by simp
  have d21: "(1704185100000 :: int) - 1704185225000 \<le> 2 ^ 53" by simp
  show ?thesis
    using duration_of_parsable [OF n1 n2 p1 p2 r1 r2 d12]
      duration_of_parsable [OF n2 n1 p2 p1 r2 r1 d21] p1 p2
    by simp
qed

text \<open>
  Without the bound the claim fails. From the earliest date there is to the last
  millisecond of an hour in the year 13659 there are \<open>9008887568399999\<close> milliseconds,
  more than \<open>2^53\<close>: the subtraction rounds to \<open>9008887568400000\<close>, a full hour, and both
  revisions return \<open>(2502468769, 0)\<close>, where the whole seconds give \<open>2502468768\<close>
  hours and \<open>59\<close> minutes.
\<close>

lemma rnd_far_apart: "rnd 9008887568399999 = 9008887568400000"
  by code_simp

lemma far_apart:
  "dsub (getTime sample_parse (JStr ''+013659-08-01T00:59:59.999Z''))
        (getTime sample_parse (JStr ''-271821-04-20T00:00:00.000Z''))
     = Some (of_int 9008887568400000)"
  by (simp add: sample_parse_def time_clip_def dsub_def rnd_far_apart)

theorem duration_far_apart_counterexample:
  "sample_parse ''-271821-04-20T00:00:00.000Z'' = Some (- 8640000000000000)
   \<and> sample_parse ''+013659-08-01T00:59:59.999Z'' = Some 368887568399999
   \<and> calculateHoursWorked sample_parse (JStr ''-271821-04-20T00:00:00.000Z'')
         (JStr ''+013659-08-01T00:59:59.999Z'') = (Num 2502468769, Num 0)
   \<and> calculateHoursWorked2 sample_parse (JStr ''-271821-04-20T00:00:00.000Z'')
         (JStr ''+013659-08-01T00:59:59.999Z'') = (Num 2502468769, Num 0)
   \<and> ((368887568399999 :: int) - (- 8640000000000000)) div 1000 div 3600 = 2502468768
   \<and> ((368887568399999 :: int) - (- 8640000000000000)) div 1000 div 60 mod 60 = 59"
proof -
  have g: "getTime sample_parse (JStr ''+013659-08-01T00:59:59.999Z'') \<noteq> None"
      "getTime sample_parse (JStr ''-271821-04-20T00:00:00.000Z'') \<noteq> None"
    by (simp_all add: sample_parse_def time_clip_def)
  have d0: "(0::int) \<le> 9008887568400000" and d1: "(9008887568400000::int) \<le> 2 ^ 53 + 2 ^ 53"
    by simp_all
  have h1: "\<lfloor>rnd (rnd (rnd ((of_int 9008887568400000 :: rat) / 1000) / 60) / 60)\<rfloor> = 2502468769"
  proof -
    have "rnd ((of_int 9008887568400000 :: rat) / 1000) = of_int 9008887568400"
      using rnd_of_int [of 9008887568400] by simp
    moreover have "rnd ((of_int 9008887568400 :: rat) / 60) = of_int 150148126140"
      using rnd_of_int [of 150148126140] by simp
    moreover have "rnd ((of_int 150148126140 :: rat) / 60) = of_int 2502468769"
      using rnd_of_int [of 2502468769] by simp
    ultimately show ?thesis by simp
  qed
  have m1: "rnd (rnd ((of_int 9008887568400000 :: rat) / 1000) / 60) = of_int 150148126140"
  proof -
    have "rnd ((of_int 9008887568400000 :: rat) / 1000) = of_int 9008887568400"
      using rnd_of_int [of 9008887568400] by simp
    moreover have "rnd ((of_int 9008887568400 :: rat) / 60) = of_int 150148126140"
      using rnd_of_int [of 150148126140] by simp
    ultimately show ?thesis by simp
  qed
  have h2: "rnd ((of_int 9008887568400000 :: rat) / 3600000) = of_int 2502468769"
    using rnd_of_int [of 2502468769] by simp
  have m2: "rnd ((of_int 9008887568400000 :: rat) / 60000) = of_int 150148126140"
    using rnd_of_int [of 150148126140] by simp
  have t: "trunc ((of_int 150148126140 :: rat) / 60) = 2502468769"
    by (simp add: trunc_def)
  have c1: "calculateHoursWorked sample_parse (JStr ''-271821-04-20T00:00:00.000Z'')
         (JStr ''+013659-08-01T00:59:59.999Z'') = (Num 2502468769, Num 0)"
    using g h1 m1 t
    by (simp add: calculateHoursWorked_def Let_def isNaN_def far_apart dneg_def ddiv_def
        dmod_def Math_floor_def del: getTime.simps)
  have c2: "calculateHoursWorked2 sample_parse (JStr ''-271821-04-20T00:00:00.000Z'')
         (JStr ''+013659-08-01T00:59:59.999Z'') = (Num 2502468769, Num 0)"
    using h2 m2 t
    by (simp add: calculateHoursWorked2_def Let_def far_apart dneg_def ddiv_def
        dmod_def Math_floor_def del: getTime.simps)
  show ?thesis using c1 c2 by (simp add: sample_parse_def)
qed

section \<open>Absent and unparsable timestamps\<close>

text \<open>
  The first revision answers \<open>(0, 0)\<close> for an absent and for an unparsable timestamp. The
  later revision does so for an absent one only: an unparsable one makes \<^verbatim>\<open>diffMs\<close>
  \<^verbatim>\<open>NaN\<close>, which is not negative, and both results are \<^verbatim>\<open>NaN\<close>.
\<close>

lemma first_revision_zero_duration:
  assumes "falsy startTime \<or> falsy endTime
           \<or> getTime parse startTime = None \<or> getTime parse endTime = None"
  shows "calculateHoursWorked parse startTime endTime = (Num 0, Num 0)"
  using assms by (auto simp: calculateHoursWorked_def isNaN_def)

lemma later_revision_absent:
  assumes "falsy startTime \<or> falsy endTime"
  shows "calculateHoursWorked2 parse startTime endTime = (Num 0, Num 0)"
  using assms by (auto simp: calculateHoursWorked2_def)

lemma later_revision_unparsable:
  assumes "\<not> falsy startTime" and "\<not> falsy endTime"
    and "getTime parse startTime = None \<or> getTime parse endTime = None"
  shows "calculateHoursWorked2 parse startTime endTime = (NaN, NaN)"
  using assms
  by (auto simp: calculateHoursWorked2_def dsub_def dneg_def ddiv_def dmod_def Math_floor_def
      split: option.splits)

text \<open>
  Claim C4, at a start timestamp that is no date: the later revision returns
  \<open>(NaN, NaN)\<close>, displayed as \<open>NaNm\<close>, where the first revision returns \<open>(0, 0)\<close>.
\<close>

theorem later_revision_unparsable_start:
  "calculateHoursWorked2 sample_parse (JStr ''yesterday'') (JStr ''2024-01-01T11:30'') = (NaN, NaN)
   \<and> formatDuration NaN NaN = ''NaNm''
   \<and> calculateHoursWorked sample_parse (JStr ''yesterday'') (JStr ''2024-01-01T11:30'')
       = (Num 0, Num 0)"
  by (simp add: calculateHoursWorked2_def calculateHoursWorked_def sample_parse_def
      time_clip_def dsub_def dneg_def ddiv_def dmod_def Math_floor_def isNaN_def
      formatDuration_def num_pos_def toStr_def)

section \<open>Aggregate totals do not depend on the order of the entries\<close>












section \<open>CSV escaping\<close>

lemma replace_quotes_plain: "dquote \<notin> set s \<Longrightarrow> replace_quotes s = s"
  by (induction s) (auto simp: replace_quotes_def)

lemma replace_quotes_Nil: "replace_quotes [] = []"
  by (simp add: replace_quotes_def)

lemma replace_quotes_Cons:
  "replace_quotes (c # s) = (if c = dquote then [dquote, dquote] else [c]) @ replace_quotes s"
  by (simp add: replace_quotes_def)

lemma escapeCsvField_string:
  "escapeCsvField (JStr s) =
     (if comma \<in> set s \<or> dquote \<in> set s \<or> newline \<in> set s \<or> creturn \<in> set s
      then [dquote] @ replace_quotes s @ [dquote] else s)"
  by (simp add: escapeCsvField_def String_of_def str_includes_def)

lemma escape_string: "escape (JStr s) = [dquote] @ replace_quotes s @ [dquote]"
  by (simp add: escape_def String_of_def)

lemma escape_nullish: "escape JNull = [dquote, dquote]" "escape JUndefined = [dquote, dquote]"
  by (simp_all add: escape_def String_of_def replace_quotes_def)

text \<open>
  Claim C3, as the code has it. The first revision's \<^verbatim>\<open>escapeCsvField\<close> wraps a field in
  double quotes, every embedded double quote doubled, exactly when the field contains a
  comma, a double quote, a line feed or a carriage return, and otherwise returns it
  unchanged (the wrapped text never equals the field). The later revision's \<^verbatim>\<open>escape\<close>
  wraps every field, with the double quotes doubled.
\<close>

theorem csv_escape_both_revisions:
  "escapeCsvField (JStr s) =
     (if comma \<in> set s \<or> dquote \<in> set s \<or> newline \<in> set s \<or> creturn \<in> set s
      then [dquote] @ replace_quotes s @ [dquote] else s)
   \<and> [dquote] @ replace_quotes s @ [dquote] \<noteq> s
   \<and> escape (JStr s) = [dquote] @ replace_quotes s @ [dquote]"
proof -
  have "length s \<le> length (replace_quotes s)"
    by (induction s) (simp_all add: replace_quotes_Nil replace_quotes_Cons)
  then have "length ([dquote] @ replace_quotes s @ [dquote]) \<noteq> length s" by simp
  then have "[dquote] @ replace_quotes s @ [dquote] \<noteq> s" by metis
  then show ?thesis by (simp only: escapeCsvField_string escape_string simp_thms)
qed

theorem csv_escape_both_revisions_witness:
  "escapeCsvField (JStr (''He said, '' @ [dquote] @ ''hi'' @ [dquote, newline] @ ''bye''))
     = [dquote] @ ''He said, '' @ [dquote, dquote] @ ''hi'' @ [dquote, dquote, newline] @ ''bye''
        @ [dquote]
   \<and> escapeCsvField (JStr ''weekly'') = ''weekly''
   \<and> escape (JStr ''weekly'') = [dquote] @ ''weekly'' @ [dquote]"
  using csv_escape_both_revisions [of "''He said, '' @ [dquote] @ ''hi'' @ [dquote, newline] @ ''bye''"]
    csv_escape_both_revisions [of "''weekly''"]
  by (simp add: replace_quotes_def)

text \<open>
  The field \<open>weekly\<close> has no comma, double quote or line feed, and the later revision
  still quotes it; the first revision quotes a field whose only special character is a
  carriage return.
\<close>

theorem csv_escape_counterexample:
  "\<not> (comma \<in> set ''weekly'' \<or> dquote \<in> set ''weekly'' \<or> newline \<in> set ''weekly'')
   \<and> escape (JStr ''weekly'') = [dquote] @ ''weekly'' @ [dquote]
   \<and> escape (JStr ''weekly'') \<noteq> ''weekly''
   \<and> \<not> (comma \<in> set [CHR ''a'', creturn, CHR ''b''] \<or> dquote \<in> set [CHR ''a'', creturn, CHR ''b'']
         \<or> newline \<in> set [CHR ''a'', creturn, CHR ''b''])
   \<and> escapeCsvField (JStr [CHR ''a'', creturn, CHR ''b'']) = [dquote, CHR ''a'', creturn, CHR ''b'', dquote]"
  by (simp add: escape_string escapeCsvField_string replace_quotes_def)


section \<open>Export of an empty entry list\<close>

lemma handleExportCSV_empty:
  "handleExportCSV parse fmt download_supported [] st
     = st\<lparr>alerts := alerts st @ [''No data to export.'']\<rparr>"
  by (simp add: handleExportCSV_def)

lemma handleExportCSV2_empty: "logs st = [] \<Longrightarrow> handleExportCSV2 parse fmt st = st"
  by (simp add: handleExportCSV2_def)

text \<open>
  Claim C5, as the code has it. On an empty entry list no file is offered for download.
  The first revision shows the alert \<open>No data to export.\<close>; the later revision, whose
  state has no entries, returns with the whole state as it was.
\<close>

theorem export_of_no_entries:
  "downloads (handleExportCSV parse fmt download_supported [] st) = downloads st
   \<and> alerts (handleExportCSV parse fmt download_supported [] st)
       = alerts st @ [''No data to export.'']
   \<and> (logs st = [] \<longrightarrow> handleExportCSV2 parse fmt st = st)"
  by (simp add: handleExportCSV_empty handleExportCSV2_empty)

theorem export_of_no_entries_witness:
  "logs empty_dashboard = []
   \<and> downloads (handleExportCSV sample_parse sample_format True [] empty_dashboard) = []
   \<and> alerts (handleExportCSV sample_parse sample_format True [] empty_dashboard)
       = [''No data to export.'']
   \<and> handleExportCSV2 sample_parse sample_format empty_dashboard = empty_dashboard"
  using export_of_no_entries [of sample_parse sample_format True empty_dashboard]
  by (simp add: empty_dashboard_def)

text \<open>
  The later revision on the empty dashboard: no alert, no error message, the state is
  unchanged. Nothing tells the user that there was nothing to export.
\<close>

theorem silent_export_counterexample:
  "logs empty_dashboard = []
   \<and> alerts (handleExportCSV2 sample_parse sample_format empty_dashboard) = []
   \<and> error (handleExportCSV2 sample_parse sample_format empty_dashboard) = []
   \<and> handleExportCSV2 sample_parse sample_format empty_dashboard = empty_dashboard"
  by (simp add: handleExportCSV2_def empty_dashboard_def)

section \<open>Deleting an entry\<close>

lemma filter_absent_id: "i \<notin> id_log ` set xs \<Longrightarrow> filter (\<lambda>l. id_log l \<noteq> i) xs = xs"
  by (induction xs) auto

lemma filter_id_remove1:
  assumes "B \<in> set xs" and "distinct (map id_log xs)"
  shows "filter (\<lambda>l. id_log l \<noteq> id_log B) xs = remove1 B xs"
  using assms
proof (induction xs)
  case Nil
  then show ?case by simp
next
  case (Cons x xs)
  show ?case
  proof (cases "x = B")
    case True
    with Cons.prems have "id_log B \<notin> id_log ` set xs" by simp
    then have "filter (\<lambda>l. id_log l \<noteq> id_log B) xs = xs"
      by (rule filter_absent_id)
    with True show ?thesis by simp
  next
    case False
    with Cons.prems have in_xs: "B \<in> set xs" by simp
    from Cons.prems have d: "distinct (map id_log xs)" and "id_log x \<notin> id_log ` set xs" by simp_all
    with in_xs have "id_log x \<noteq> id_log B" by auto
    with False Cons.IH [OF in_xs d] show ?thesis by simp
  qed
qed

text \<open>
  Let \<open>B\<close> be an entry of the list, the ids of the list being distinct, and let the user
  confirm the deletion. While the store is called the list is the original one without
  \<open>B\<close>. If the store reports an error, the final list is the list before the deletion,
  \<open>B\<close> back in its place, and the message \<open>Failed to delete\<close> is stored. If the store
  reports none, the final list is the original one without \<open>B\<close>.
\<close>

lemma delete_rolls_back_or_removes:
  assumes "B \<in> set (logs st)" and "distinct (map id_log (logs st))"
  shows "logs (handleDelete_optimistic (id_log B) st) = remove1 B (logs st)
       \<and> logs (handleDelete True (Some e) (id_log B) st) = logs st
       \<and> error (handleDelete True (Some e) (id_log B) st) = ''Failed to delete''
       \<and> logs (handleDelete True None (id_log B) st) = remove1 B (logs st)"
  using filter_id_remove1 [OF assms]
  by (simp add: handleDelete_def handleDelete_optimistic_def Let_def)

text \<open>
  The stored message is all there is of the error: after a failed deletion the later
  revision draws what it drew before, and it shows no alert.
\<close>

lemma failed_delete_view:
  "view2 (handleDelete confirmed (Some e) i st) = view2 st
   \<and> alerts (handleDelete confirmed (Some e) i st) = alerts st
   \<and> downloads (handleDelete confirmed (Some e) i st) = downloads st"
  by (simp add: handleDelete_def handleDelete_optimistic_def view2_def Let_def)

text \<open>
  Claim C6, on the entry list \<open>[entryA, entryB, entryC]\<close> with the deletion of \<open>entryB\<close>
  (id 2) confirmed and failing at the store. The list is restored and the message
  \<open>Failed to delete\<close> is stored, but the later revision draws exactly what it drew before
  the deletion and shows no alert: the error is not surfaced.
\<close>

theorem failed_delete_not_shown:
  "logs (handleDelete True (Some ''timeout'') 2 (empty_dashboard\<lparr>logs := [entryA, entryB, entryC]\<rparr>))
     = [entryA, entryB, entryC]
   \<and> error (handleDelete True (Some ''timeout'') 2 (empty_dashboard\<lparr>logs := [entryA, entryB, entryC]\<rparr>))
       = ''Failed to delete''
   \<and> view2 (handleDelete True (Some ''timeout'') 2 (empty_dashboard\<lparr>logs := [entryA, entryB, entryC]\<rparr>))
       = view2 (empty_dashboard\<lparr>logs := [entryA, entryB, entryC]\<rparr>)
   \<and> alerts (handleDelete True (Some ''timeout'') 2 (empty_dashboard\<lparr>logs := [entryA, entryB, entryC]\<rparr>))
       = alerts (empty_dashboard\<lparr>logs := [entryA, entryB, entryC]\<rparr>)
   \<and> logs (handleDelete True None 2 (empty_dashboard\<lparr>logs := [entryA, entryB, entryC]\<rparr>))
       = [entryA, entryC]"
  by (simp add: handleDelete_def handleDelete_optimistic_def view2_def Let_def
      entryA_def entryB_def entryC_def)

section \<open>The header row of the export\<close>

lemma takeWhile_until:
  "c \<notin> set h \<Longrightarrow> takeWhile (\<lambda>x. x \<noteq> c) (h @ c # rest) = h"
  by (induction h) auto

lemma first_line_join:
  assumes "newline \<notin> set h" and "rows \<noteq> []"
  shows "first_line (join [newline] (h # rows)) = h"
proof -
  from assms(2) obtain r rs where "rows = r # rs" by (cases rows) auto
  then have "join [newline] (h # rows) = h @ newline # join [newline] (r # rs)" by simp
  moreover have "takeWhile (\<lambda>c. c \<noteq> newline) (h @ newline # join [newline] (r # rs)) = h"
    using assms(1) by (rule takeWhile_until)
  ultimately show ?thesis by (simp add: first_line_def)
qed

lemma header_row: "join '','' headers = ''Task,Start Time,End Time,Hours Worked,Notes''"
  by (simp add: headers_def)

lemma header_row2: "join '','' headers2 = ''Task,Start,End,Duration,Notes''"
  by (simp add: headers2_def)

lemma first_line_csvString:
  assumes "logsToExport \<noteq> []"
  shows "first_line (csvString parse fmt logsToExport)
           = ''Task,Start Time,End Time,Hours Worked,Notes''"
proof -
  have nl: "newline \<notin> set (join '','' headers)" by (simp add: header_row)
  from assms have ne: "map (csvRow parse fmt) logsToExport \<noteq> []" by simp
  have "first_line (csvString parse fmt logsToExport) = join '','' headers"
    unfolding csvString_def by (rule first_line_join [OF nl ne])
  then show ?thesis by (simp only: header_row)
qed

lemma first_line_csvString2:
  assumes "logs_now \<noteq> []"
  shows "first_line (csvString2 parse fmt logs_now) = ''Task,Start,End,Duration,Notes''"
proof -
  have nl: "newline \<notin> set (join '','' headers2)" by (simp add: header_row2)
  from assms have ne: "map (csvRow2 parse fmt) logs_now \<noteq> []" by simp
  have "first_line (csvString2 parse fmt logs_now) = join '','' headers2"
    unfolding csvString2_def by (rule first_line_join [OF nl ne])
  then show ?thesis by (simp only: header_row2)
qed

lemma handleExportCSV_downloads:
  assumes "logsToExport \<noteq> []"
  shows "downloads (handleExportCSV parse fmt True logsToExport st) = downloads st @
     [\<lparr>content = csvString parse fmt logsToExport, mime_type = ''text/csv;charset=utf-8;'',
       file_name = ''time_logs.csv''\<rparr>]"
  using assms by (simp add: handleExportCSV_def save_as_def)

lemma handleExportCSV2_downloads:
  assumes "logs st \<noteq> []"
  shows "downloads (handleExportCSV2 parse fmt st) = downloads st @
     [\<lparr>content = csvString2 parse fmt (logs st), mime_type = ''text/csv;charset=utf-8;'',
       file_name = ''time_logs.csv''\<rparr>]"
  using assms by (simp add: handleExportCSV2_def save_as_def)

text \<open>
  Claim C7, as the code has it. For a dashboard with at least one entry, the first line of
  the exported file is \<open>Task,Start Time,End Time,Hours Worked,Notes\<close> in the first
  revision and \<open>Task,Start,End,Duration,Notes\<close> in the later one.
\<close>

theorem csv_header_line:
  assumes "logs st \<noteq> []"
  shows "first_line (content (last (downloads (handleExportCSV parse fmt True (logs st) st))))
           = ''Task,Start Time,End Time,Hours Worked,Notes''
       \<and> first_line (content (last (downloads (handleExportCSV2 parse fmt st))))
           = ''Task,Start,End,Duration,Notes''"
  using assms
  by (simp add: handleExportCSV_downloads handleExportCSV2_downloads
      first_line_csvString first_line_csvString2)

theorem csv_header_line_witness:
  "logs (empty_dashboard\<lparr>logs := [entryA, entryB]\<rparr>) \<noteq> []
   \<and> first_line (content (last (downloads
         (handleExportCSV sample_parse sample_format True [entryA, entryB]
            (empty_dashboard\<lparr>logs := [entryA, entryB]\<rparr>)))))
       = ''Task,Start Time,End Time,Hours Worked,Notes''
   \<and> first_line (content (last (downloads
         (handleExportCSV2 sample_parse sample_format (empty_dashboard\<lparr>logs := [entryA, entryB]\<rparr>)))))
       = ''Task,Start,End,Duration,Notes''"
proof -
  have ne: "logs (empty_dashboard\<lparr>logs := [entryA, entryB]\<rparr>) \<noteq> []" by simp
  show ?thesis
    using csv_header_line [OF ne, of sample_parse sample_format] by simp
qed

text \<open>
  For the single entry \<open>entryA\<close> neither revision's first line is
  \<open>Task,Start Time,End Time,Duration,Notes\<close>.
\<close>

theorem csv_header_counterexample:
  "first_line (csvString sample_parse sample_format [entryA])
     = ''Task,Start Time,End Time,Hours Worked,Notes''
   \<and> first_line (csvString sample_parse sample_format [entryA])
       \<noteq> ''Task,Start Time,End Time,Duration,Notes''
   \<and> first_line (csvString2 sample_parse sample_format [entryA])
       = ''Task,Start,End,Duration,Notes''
   \<and> first_line (csvString2 sample_parse sample_format [entryA])
       \<noteq> ''Task,Start Time,End Time,Duration,Notes''"
  by (simp add: first_line_csvString first_line_csvString2)

section \<open>Display of a duration\<close>

text \<open>\<open>showNat\<close> writes the decimal digits: reading them back gives the number.\<close>

lemma digit_char_value:
  assumes "n < 10"
  shows "of_char (''0123456789'' ! n) - 48 = n"
proof -
  from assms have "n \<in> {0, 1, 2, 3, 4, 5, 6, 7, 8, 9}"
    by (simp only: insert_iff empty_iff) arith
  then show ?thesis by auto
qed

lemma decimal_value_snoc:
  "decimal_value (s @ [c]) = 10 * decimal_value s + (of_char c - 48)"
  by (simp add: decimal_value_def)

lemma decimal_value_showNat: "decimal_value (showNat n) = n"
proof (induction n rule: showNat.induct)
  case (1 n)
  show ?case
  proof (cases "n < 10")
    case True
    then have "showNat n = [''0123456789'' ! n]" by (subst showNat.simps) simp
    with True show ?thesis using digit_char_value [OF True]
      by (simp add: decimal_value_def)
  next
    case False
    then have s: "showNat n = showNat (n div 10) @ [''0123456789'' ! (n mod 10)]"
      by (subst showNat.simps) simp
    have "n mod 10 < 10" by simp
    then have d: "of_char (''0123456789'' ! (n mod 10)) - 48 = n mod 10"
      by (rule digit_char_value)
    from False "1.IH" have "decimal_value (showNat (n div 10)) = n div 10" by simp
    with d show ?thesis by (simp add: s decimal_value_snoc)
  qed
qed






section \<open>The export leaves the entries alone\<close>

text \<open>
  Claim C9. After the export the entry list of the state is the entry list before it,
  in both revisions, whatever list is exported and whether or not a file is written.
\<close>

theorem export_keeps_entries:
  "logs (handleExportCSV parse fmt download_supported logsToExport st) = logs st
   \<and> logs (handleExportCSV2 parse fmt st) = logs st"
  by (simp add: handleExportCSV_def handleExportCSV2_def save_as_def)

theorem export_keeps_entries_witness:
  "logs (handleExportCSV sample_parse sample_format True [entryA, entryB, entryC]
           (empty_dashboard\<lparr>logs := [entryA, entryB, entryC]\<rparr>)) = [entryA, entryB, entryC]
   \<and> logs (handleExportCSV2 sample_parse sample_format
           (empty_dashboard\<lparr>logs := [entryA, entryB, entryC]\<rparr>)) = [entryA, entryB, entryC]"
  using export_keeps_entries [of sample_parse sample_format True "[entryA, entryB, entryC]"
      "empty_dashboard\<lparr>logs := [entryA, entryB, entryC]\<rparr>"]
  by simp

section \<open>Null and undefined fields in the export\<close>






end
